theory Spec2Isabelle
  imports Main "HOL-Library.Word"
begin

unbundle bit_operations_syntax

section \<open>Python values used by the collectors\<close>

text \<open>
  A Python \<^verbatim>\<open>bytes\<close> or \<^verbatim>\<open>bytearray\<close> object is a list of 8-bit words; Python's
  unbounded integers are \<^typ>\<open>int\<close>. Every exception the modelled code can raise is a
  value of \<open>exn\<close>; a call that may raise returns \<open>exn + 'a\<close> with \<open>Inl\<close> for the raise.
  \<open>UnicodeDecodeError\<close> is a subclass of \<open>ValueError\<close> in Python and all constructors
  are subclasses of \<open>Exception\<close>.
\<close>

type_synonym byte = "8 word"

datatype exn =
    KeyError
  | ValueError string
  | UnicodeDecodeError
  | TypeError
  | OSError
  | AttributeError
  | OtherException

text \<open>\<^verbatim>\<open>int.from_bytes(bs, "big")\<close> and \<^verbatim>\<open>int.from_bytes(bs, "little")\<close>.\<close>

definition from_bytes_big :: "byte list \<Rightarrow> int" where
  "from_bytes_big bs = foldl (\<lambda>acc b. acc * 256 + uint b) 0 bs"

definition from_bytes_little :: "byte list \<Rightarrow> int" where
  "from_bytes_little bs = from_bytes_big (rev bs)"

section \<open>Register decoder (deye\_modbus.py)\<close>

text \<open>
  The register map is a Python dict from register address to the register's bytes.
  \<^verbatim>\<open>response[address]\<close> raises \<open>KeyError\<close> for an address that is not a key.
\<close>

type_synonym register_map = "int \<rightharpoonup> byte list"

definition read_unit16 :: "register_map \<Rightarrow> int \<Rightarrow> exn + int" where
  "read_unit16 response address =
     (case response address of
        None \<Rightarrow> Inl KeyError
      | Some bs \<Rightarrow> Inr (from_bytes_big bs AND 0xffff))"

definition read_unit32 :: "register_map \<Rightarrow> int \<Rightarrow> exn + int" where
  "read_unit32 response address =
     (case response address of
        None \<Rightarrow> Inl KeyError
      | Some bs \<Rightarrow> Inr (from_bytes_big bs AND 0xffffffff))"

definition read_int16 :: "register_map \<Rightarrow> int \<Rightarrow> exn + int" where
  "read_int16 response address =
     (case response address of
        None \<Rightarrow> Inl KeyError
      | Some bs \<Rightarrow>
          (let v = from_bytes_big bs AND 0xffff
           in Inr (if v > 32767 then v - 65536 else v)))"

definition read_int32 :: "register_map \<Rightarrow> int \<Rightarrow> exn + int" where
  "read_int32 response address =
     (case read_unit32 response address of
        Inl e \<Rightarrow> Inl e
      | Inr v \<Rightarrow> Inr (if v > 2147483647 then v - 4294967296 else v))"

section \<open>Python sequence and string primitives\<close>

text \<open>
  Slicing \<^verbatim>\<open>xs[i:j]\<close> never raises: a negative bound counts from the end, and both
  bounds are clamped to the length. \<open>py_slice_from\<close> is \<^verbatim>\<open>xs[i:]\<close>.
\<close>

definition clamp_index :: "nat \<Rightarrow> int \<Rightarrow> nat" where
  "clamp_index n i = (if i < 0 then nat (max (i + int n) 0) else min (nat i) n)"

definition py_slice :: "'a list \<Rightarrow> int \<Rightarrow> int \<Rightarrow> 'a list" where
  "py_slice xs i j =
     (let lo = clamp_index (length xs) i; hi = clamp_index (length xs) j
      in take (hi - lo) (drop lo xs))"

definition py_slice_from :: "'a list \<Rightarrow> int \<Rightarrow> 'a list" where
  "py_slice_from xs i = drop (clamp_index (length xs) i) xs"

text \<open>\<^verbatim>\<open>bs.startswith(p)\<close>.\<close>

definition startswith :: "'a list \<Rightarrow> 'a list \<Rightarrow> bool" where
  "startswith xs p = (take (length p) xs = p)"

text \<open>An ASCII byte literal such as \<^verbatim>\<open>b"+ok="\<close>, and the inverse reading of ASCII bytes.\<close>

definition ascii :: "string \<Rightarrow> byte list" where
  "ascii s = map (\<lambda>c. of_nat (of_char c)) s"

definition chars_of :: "byte list \<Rightarrow> string" where
  "chars_of bs = map (\<lambda>b. char_of (unat b)) bs"

text \<open>Lower-case hexadecimal digits, as produced by the \<^verbatim>\<open>x\<close> format and \<^verbatim>\<open>bytes.hex()\<close>.\<close>

definition hex_digit :: "nat \<Rightarrow> char" where
  "hex_digit d = ''0123456789abcdef'' ! (d mod 16)"

fun hex_of_nat :: "nat \<Rightarrow> string" where
  "hex_of_nat n = (if n < 16 then [hex_digit n] else hex_of_nat (n div 16) @ [hex_digit (n mod 16)])"

declare hex_of_nat.simps [simp del]

text \<open>
  \<^verbatim>\<open>"{:04x}".format(n)\<close>: at least four characters, padded with zeros after the
  sign; a wider number is not truncated.
\<close>

definition zero_pad :: "nat \<Rightarrow> string \<Rightarrow> string" where
  "zero_pad w s = replicate (w - length s) (CHR ''0'') @ s"

definition format_04x :: "int \<Rightarrow> string" where
  "format_04x n =
     (if n < 0 then CHR ''-'' # zero_pad 3 (hex_of_nat (nat (- n)))
      else zero_pad 4 (hex_of_nat (nat n)))"

definition hex_bytes :: "byte list \<Rightarrow> string" where
  "hex_bytes bs = concat (map (\<lambda>b. [hex_digit (unat b div 16), hex_digit (unat b mod 16)]) bs)"

text \<open>
  \<^verbatim>\<open>bytearray.fromhex(s)\<close>: ASCII whitespace before a byte is skipped, then two
  hexadecimal digits (either case) are read; anything else raises \<open>ValueError\<close>.
\<close>

definition hex_val :: "char \<Rightarrow> nat option" where
  "hex_val c =
     (let k = of_char c :: nat in
      if 48 \<le> k \<and> k \<le> 57 then Some (k - 48)
      else if 97 \<le> k \<and> k \<le> 102 then Some (k - 87)
      else if 65 \<le> k \<and> k \<le> 70 then Some (k - 55)
      else None)"

definition py_isspace :: "char \<Rightarrow> bool" where
  "py_isspace c = (let k = of_char c :: nat in k = 32 \<or> (9 \<le> k \<and> k \<le> 13))"

fun fromhex :: "string \<Rightarrow> exn + byte list" where
  "fromhex [] = Inr []"
| "fromhex [c] = (if py_isspace c then Inr [] else Inl (ValueError ''fromhex''))"
| "fromhex (c # d # cs) =
     (if py_isspace c then fromhex (d # cs)
      else case (hex_val c, hex_val d) of
          (Some h, Some l) \<Rightarrow>
            (case fromhex cs of
               Inl e \<Rightarrow> Inl e
             | Inr bs \<Rightarrow> Inr (of_nat (h * 16 + l) # bs))
        | _ \<Rightarrow> Inl (ValueError ''fromhex''))"

section \<open>CRC-16/MODBUS\<close>

text \<open>
  Modelled from the spec: \<^verbatim>\<open>libscrc.modbus\<close> is a function of an external library, named
  by the spec as CRC-16/MODBUS. It is the standard bitwise algorithm: register
  initialised to \<open>0xFFFF\<close>, each byte is XORed into the low half and the register is
  shifted right eight times, XORing the reflected polynomial \<open>0xA001\<close> whenever a one
  is shifted out; no final XOR. The result is returned as a Python integer.
\<close>

definition crc16_shift :: "16 word \<Rightarrow> 16 word" where
  "crc16_shift c = (if bit c 0 then drop_bit 1 c XOR 0xA001 else drop_bit 1 c)"

definition crc16_byte :: "16 word \<Rightarrow> byte \<Rightarrow> 16 word" where
  "crc16_byte c b = (crc16_shift ^^ 8) (c XOR ucast b)"

definition crc16_modbus :: "byte list \<Rightarrow> 16 word" where
  "crc16_modbus bs = foldl crc16_byte 0xFFFF bs"

definition libscrc_modbus :: "byte list \<Rightarrow> int" where
  "libscrc_modbus bs = uint (crc16_modbus bs)"

text \<open>
  The inverse of one shift step (bit 15 of the result tells whether the polynomial was
  XORed in); it is only used to show that a shift step loses no information.
\<close>

definition crc16_unshift :: "16 word \<Rightarrow> 16 word" where
  "crc16_unshift r = (if bit r 15 then push_bit 1 (r XOR 0xA001) OR 1 else push_bit 1 r)"

section \<open>Frame codec (deye\_modbus.py)\<close>

definition build_modbus_read_holding_registers_request_frame :: "int \<Rightarrow> int \<Rightarrow> exn + byte list" where
  "build_modbus_read_holding_registers_request_frame first_reg last_reg =
     (let reg_count = last_reg - first_reg + 1
      in fromhex (''0103'' @ format_04x first_reg @ format_04x reg_count))"

text \<open>
  The \<^verbatim>\<open>while a < reg_count\<close> loop of the parser, storing
  \<^verbatim>\<open>frame[p1:p2]\<close> under \<^verbatim>\<open>a + first_reg\<close>.
\<close>

function parse_loop :: "byte list \<Rightarrow> int \<Rightarrow> int \<Rightarrow> int \<Rightarrow> register_map \<Rightarrow> register_map" where
  "parse_loop frame first_reg reg_count a registers =
     (if a < reg_count then
        (let p1 = 3 + (a * 2); p2 = p1 + 2
         in parse_loop frame first_reg reg_count (a + 1)
              (registers(a + first_reg \<mapsto> py_slice frame p1 p2)))
      else registers)"
  by pat_completeness auto
termination
  by (relation "measure (\<lambda>(frame, first_reg, reg_count, a, registers). nat (reg_count - a))") auto

declare parse_loop.simps [simp del]

definition parse_modbus_read_holding_registers_response ::
    "byte list \<Rightarrow> int \<Rightarrow> int \<Rightarrow> exn + register_map" where
  "parse_modbus_read_holding_registers_response frame first_reg last_reg =
     (let reg_count = last_reg - first_reg + 1;
          expected_frame_data_len = 2 + 1 + reg_count * 2
      in if int (length frame) < expected_frame_data_len + 2
         then Inl (ValueError ''Modbus frame is too short'')
         else
           (let actual_crc = from_bytes_little
                  (py_slice frame expected_frame_data_len (expected_frame_data_len + 2));
                expected_crc = libscrc_modbus (py_slice frame 0 expected_frame_data_len)
            in if actual_crc \<noteq> expected_crc
               then Inl (ValueError ''Modbus frame crc is not valid'')
               else Inr (parse_loop frame first_reg reg_count 0 Map.empty)))"

text \<open>
  The request that \<^verbatim>\<open>read_holding_registers\<close> hands to the connector: the frame
  followed by the reversed bytes of \<^verbatim>\<open>"{:04x}".format(libscrc.modbus(frame))\<close>.
\<close>

definition request_with_crc :: "int \<Rightarrow> int \<Rightarrow> exn + byte list" where
  "request_with_crc first_reg last_reg =
     (case build_modbus_read_holding_registers_request_frame first_reg last_reg of
        Inl e \<Rightarrow> Inl e
      | Inr modbus_frame \<Rightarrow>
          (case fromhex (format_04x (libscrc_modbus modbus_frame)) of
             Inl e \<Rightarrow> Inl e
           | Inr modbus_crc \<Rightarrow> Inr (modbus_frame @ rev modbus_crc)))"

text \<open>
  The layout the specification gives for a request: a 16-bit field in big-endian and in
  little-endian byte order, and the request as the specification words it (function
  code, first register, register count, then the CRC of those bytes, low byte first).
  \<open>spec_request_with_crc\<close> follows the specification's sentence, not the source.
\<close>

definition u16_be :: "int \<Rightarrow> byte list" where
  "u16_be n = [word_of_int (n div 256), word_of_int (n mod 256)]"

definition u16_le :: "int \<Rightarrow> byte list" where
  "u16_le n = [word_of_int (n mod 256), word_of_int (n div 256)]"

definition spec_request_with_crc :: "int \<Rightarrow> int \<Rightarrow> byte list" where
  "spec_request_with_crc first_reg last_reg =
     (let frame = 0x03 # u16_be first_reg @ u16_be (last_reg - first_reg + 1)
      in frame @ u16_le (libscrc_modbus frame))"

text \<open>
  A valid response frame for the registers \<open>first_reg..last_reg\<close>, as the
  specification describes the synthetic one: two header bytes, one byte-count byte and
  \<open>reg_count\<close> two-byte register values, followed by exactly the two bytes of the
  CRC-16/MODBUS of those bytes, low byte first.
\<close>

definition valid_response_frame :: "byte list \<Rightarrow> int \<Rightarrow> int \<Rightarrow> bool" where
  "valid_response_frame frame first_reg last_reg =
     (let reg_count = last_reg - first_reg + 1;
          data_len = nat (3 + reg_count * 2)
      in int (length frame) = 3 + reg_count * 2 + 2
         \<and> drop data_len frame = u16_le (libscrc_modbus (take data_len frame)))"

section \<open>More Python string primitives\<close>

text \<open>
  A Python \<^verbatim>\<open>str\<close> whose characters are below U+0100 is a HOL \<^typ>\<open>string\<close>
  (one \<^typ>\<open>char\<close> per code point); the hexadecimal strings of the request codec and
  the strings that the SML library hands out are of this kind. The result of
  \<^verbatim>\<open>bytes.decode("utf-8")\<close> can hold any code point and is a list of code points.
\<close>

type_synonym py_str = "nat list"

definition codepoints :: "string \<Rightarrow> py_str" where
  "codepoints s = map of_char s"

text \<open>
  Strict UTF-8 decoding, as \<^verbatim>\<open>bytes.decode("utf-8")\<close> does it: no overlong forms, no
  surrogates, nothing above U+10FFFF; any malformed sequence raises
  \<open>UnicodeDecodeError\<close>.
\<close>

definition is_cont :: "byte \<Rightarrow> bool" where
  "is_cont b = (128 \<le> unat b \<and> unat b \<le> 191)"

definition cons_result :: "'a \<Rightarrow> exn + 'a list \<Rightarrow> exn + 'a list" where
  "cons_result x r = (case r of Inl e \<Rightarrow> Inl e | Inr xs \<Rightarrow> Inr (x # xs))"

fun decode_utf8 :: "byte list \<Rightarrow> exn + py_str" where
  "decode_utf8 [] = Inr []"
| "decode_utf8 (b0 # bs) =
     (if unat b0 < 128 then cons_result (unat b0) (decode_utf8 bs)
      else if 194 \<le> unat b0 \<and> unat b0 \<le> 223 then
        (case bs of
           b1 # rest \<Rightarrow>
             if is_cont b1
             then cons_result ((unat b0 - 192) * 64 + (unat b1 - 128)) (decode_utf8 rest)
             else Inl UnicodeDecodeError
         | _ \<Rightarrow> Inl UnicodeDecodeError)
      else if 224 \<le> unat b0 \<and> unat b0 \<le> 239 then
        (case bs of
           b1 # b2 # rest \<Rightarrow>
             if (if unat b0 = 224 then 160 \<le> unat b1 \<and> unat b1 \<le> 191
                 else if unat b0 = 237 then 128 \<le> unat b1 \<and> unat b1 \<le> 159
                 else is_cont b1) \<and> is_cont b2
             then cons_result
                    ((unat b0 - 224) * 4096 + (unat b1 - 128) * 64 + (unat b2 - 128))
                    (decode_utf8 rest)
             else Inl UnicodeDecodeError
         | _ \<Rightarrow> Inl UnicodeDecodeError)
      else if 240 \<le> unat b0 \<and> unat b0 \<le> 244 then
        (case bs of
           b1 # b2 # b3 # rest \<Rightarrow>
             if (if unat b0 = 240 then 144 \<le> unat b1 \<and> unat b1 \<le> 191
                 else if unat b0 = 244 then 128 \<le> unat b1 \<and> unat b1 \<le> 143
                 else is_cont b1) \<and> is_cont b2 \<and> is_cont b3
             then cons_result
                    ((unat b0 - 240) * 262144 + (unat b1 - 128) * 4096
                       + (unat b2 - 128) * 64 + (unat b3 - 128))
                    (decode_utf8 rest)
             else Inl UnicodeDecodeError
         | _ \<Rightarrow> Inl UnicodeDecodeError)
      else Inl UnicodeDecodeError)"

text \<open>
  \<^verbatim>\<open>bytearray.fromhex\<close> on a decoded string: a string with a character outside ASCII
  is refused with \<open>ValueError\<close> before anything is parsed.
\<close>

definition fromhex_str :: "py_str \<Rightarrow> exn + byte list" where
  "fromhex_str s =
     (if \<forall>c \<in> set s. c < 128 then fromhex (map char_of s)
      else Inl (ValueError ''fromhex''))"

text \<open>Decimal digits of a natural number and \<^verbatim>\<open>str(n)\<close> of an integer.\<close>

fun dec_of_nat :: "nat \<Rightarrow> string" where
  "dec_of_nat n =
     (if n < 10 then [hex_digit n] else dec_of_nat (n div 10) @ [hex_digit (n mod 10)])"

declare dec_of_nat.simps [simp del]

definition str_of_int :: "int \<Rightarrow> string" where
  "str_of_int n = (if n < 0 then CHR ''-'' # dec_of_nat (nat (- n)) else dec_of_nat (nat n))"

text \<open>
  \<^verbatim>\<open>int(s)\<close> and \<^verbatim>\<open>int(s, 16)\<close> on a string of characters below U+0100: white space
  is stripped at both ends, one sign is allowed, base 16 allows a \<^verbatim>\<open>0x\<close> prefix, and
  single underscores may separate digits. Anything else raises \<open>ValueError\<close>.
\<close>

definition py_unicode_isspace :: "char \<Rightarrow> bool" where
  "py_unicode_isspace c =
     (let k = of_char c :: nat
      in (9 \<le> k \<and> k \<le> 13) \<or> (28 \<le> k \<and> k \<le> 32) \<or> k = 133 \<or> k = 160)"

definition py_strip :: "string \<Rightarrow> string" where
  "py_strip s = rev (dropWhile py_unicode_isspace (rev (dropWhile py_unicode_isspace s)))"

definition digit_val :: "nat \<Rightarrow> char \<Rightarrow> nat option" where
  "digit_val base c =
     (case hex_val c of
        None \<Rightarrow> None
      | Some d \<Rightarrow> if d < base then Some d else None)"

text \<open>
  The digits of a literal, after sign and prefix: \<open>after_digit\<close> tells whether the
  previous character was a digit, which is where an underscore or the end may follow.
\<close>

fun parse_digits :: "nat \<Rightarrow> bool \<Rightarrow> nat \<Rightarrow> string \<Rightarrow> nat option" where
  "parse_digits base after_digit acc [] = (if after_digit then Some acc else None)"
| "parse_digits base after_digit acc (c # cs) =
     (if c = CHR ''_'' then (if after_digit then parse_digits base False acc cs else None)
      else case digit_val base c of
          None \<Rightarrow> None
        | Some d \<Rightarrow> parse_digits base True (acc * base + d) cs)"

definition strip_base_prefix :: "nat \<Rightarrow> string \<Rightarrow> string" where
  "strip_base_prefix base s =
     (if base = 16 \<and> (take 2 s = ''0x'' \<or> take 2 s = ''0X'')
      then (if take 1 (drop 2 s) = ''_'' then drop 3 s else drop 2 s)
      else s)"

definition py_int :: "nat \<Rightarrow> string \<Rightarrow> exn + int" where
  "py_int base s =
     (let t = py_strip s;
          negative = (take 1 t = ''-'');
          body = (if take 1 t = ''-'' \<or> take 1 t = ''+'' then drop 1 t else t)
      in case parse_digits base False 0 (strip_base_prefix base body) of
           None \<Rightarrow> Inl (ValueError ''invalid literal for int()'')
         | Some n \<Rightarrow> Inr (if negative then - int n else int n))"

text \<open>The substring test \<^verbatim>\<open>t in s\<close> on strings.\<close>

fun py_in :: "'a list \<Rightarrow> 'a list \<Rightarrow> bool" where
  "py_in t [] = (t = [])"
| "py_in t (c # cs) = (startswith (c # cs) t \<or> py_in t cs)"

section \<open>AT response extraction (deye\_modbus.py)\<close>

definition extract_modbus_respose :: "byte list \<Rightarrow> exn + byte list" where
  "extract_modbus_respose at_cmd_response =
     (case decode_utf8 (py_slice (filter (\<lambda>b. b \<noteq> 0x10) at_cmd_response) 4 (- 4)) of
        Inl e \<Rightarrow> Inl e
      | Inr extracted_modus_response \<Rightarrow>
          fromhex_str
            (if length extracted_modus_response > 4
                \<and> py_slice_from extracted_modus_response (- 4) = codepoints ''0000''
             then py_slice extracted_modus_response 0 (- 4)
             else extracted_modus_response))"

text \<open>
  The extraction as the specification words it: remove every \<open>0x10\<close> byte, drop the
  first four and the last four of the remaining bytes, read the rest as an ASCII
  hexadecimal string, remove a trailing \<open>0000\<close> when the string is longer than four
  characters and ends with it, and hex-decode. \<open>None\<close> when the rest is not ASCII or
  not a hexadecimal string, where no bytes are obtained.
\<close>

definition spec_extract :: "byte list \<Rightarrow> byte list option" where
  "spec_extract response =
     (let kept = filter (\<lambda>b. b \<noteq> 0x10) response;
          inner = rev (drop 4 (rev (drop 4 kept)))
      in if \<exists>b \<in> set inner. 128 \<le> unat b then None
         else
           (let hex = chars_of inner;
                hex' = (if length hex > 4 \<and> drop (length hex - 4) hex = ''0000''
                        then take (length hex - 4) hex else hex)
            in case fromhex hex' of Inl e \<Rightarrow> None | Inr bs \<Rightarrow> Some bs))"

section \<open>AT transport session (deye\_modbus.py)\<close>

text \<open>
  The datagram socket is the environment of a session. A \<open>network\<close> scripts it:
  whether \<^verbatim>\<open>socket.socket\<close> succeeds (it raises \<open>OSError\<close> otherwise), and what the
  \<open>k\<close>-th call of \<^verbatim>\<open>sendto\<close> and of \<^verbatim>\<open>recv\<close> does. \<^verbatim>\<open>recv\<close> returns data, times out
  (\<^verbatim>\<open>socket.timeout\<close>), raises another \<open>OSError\<close>, or raises some other exception.
  Logging and sleeping are left out.
\<close>

datatype send_result = Send_ok | Send_raises exn

datatype recv_result = Recv_data "byte list" | Recv_timeout | Recv_OSError | Recv_other_exception

record network =
  socket_opens :: bool
  sendto_result :: "nat \<Rightarrow> send_result"
  recv_result :: "nat \<Rightarrow> recv_result"

text \<open>
  The state that a session changes: the connector's sticky \<^verbatim>\<open>__reachable\<close> flag, the
  datagrams handed to \<^verbatim>\<open>sendto\<close> so far (oldest first, whether or not the call then
  raised), the number of \<^verbatim>\<open>recv\<close> calls made, and whether the socket has been closed.
\<close>

record session =
  reachable :: bool
  sent :: "byte list list"
  recv_calls :: nat
  socket_closed :: bool

definition create_socket :: "network \<Rightarrow> session \<Rightarrow> bool \<times> session" where
  "create_socket net st =
     (if socket_opens net then (True, st\<lparr>reachable := True\<rparr>)
      else (False, st\<lparr>reachable := False\<rparr>))"

definition send_at_command :: "network \<Rightarrow> byte list \<Rightarrow> session \<Rightarrow> (exn + unit) \<times> session" where
  "send_at_command net at_command st =
     (case sendto_result net (length (sent st)) of
        Send_ok \<Rightarrow> (Inr (), st\<lparr>sent := sent st @ [at_command]\<rparr>)
      | Send_raises e \<Rightarrow> (Inl e, st\<lparr>sent := sent st @ [at_command]\<rparr>))"

text \<open>
  The receive loop, on the number of attempts left. The handler for \<open>OSError\<close> logs
  \<^verbatim>\<open>self.config.ip_address\<close>; the connector has no attribute \<^verbatim>\<open>config\<close>, so the handler
  itself raises \<open>AttributeError\<close>, which leaves the function.
\<close>

fun receive_loop :: "network \<Rightarrow> nat \<Rightarrow> session \<Rightarrow> (exn + byte list option) \<times> session" where
  "receive_loop net 0 st = (Inr None, st)"
| "receive_loop net (Suc attempts) st =
     (case recv_result net (recv_calls st) of
        Recv_data data \<Rightarrow>
          if data \<noteq> [] then (Inr (Some data), st\<lparr>recv_calls := recv_calls st + 1\<rparr>)
          else receive_loop net attempts (st\<lparr>recv_calls := recv_calls st + 1\<rparr>)
      | Recv_timeout \<Rightarrow> receive_loop net attempts (st\<lparr>recv_calls := recv_calls st + 1\<rparr>)
      | Recv_OSError \<Rightarrow> (Inl AttributeError, st\<lparr>recv_calls := recv_calls st + 1\<rparr>)
      | Recv_other_exception \<Rightarrow> (Inr None, st\<lparr>recv_calls := recv_calls st + 1\<rparr>))"

definition receive_at_response :: "network \<Rightarrow> session \<Rightarrow> (exn + byte list option) \<times> session" where
  "receive_at_response net st = receive_loop net 5 st"

definition authenticate :: "network \<Rightarrow> session \<Rightarrow> (exn + unit) \<times> session" where
  "authenticate net st =
     (case send_at_command net (ascii ''WIFIKIT-214028-READ'') st of
        (Inl e, st1) \<Rightarrow> (Inl e, st1)
      | (Inr _, st1) \<Rightarrow>
          (case receive_at_response net st1 of
             (Inl e, st2) \<Rightarrow> (Inl e, st2)
           | (Inr _, st2) \<Rightarrow> (Inr (), st2)))"

definition deauthenticate :: "network \<Rightarrow> session \<Rightarrow> (exn + unit) \<times> session" where
  "deauthenticate net st = send_at_command net (ascii (''AT+Q'' @ [CHR 0x0A])) st"

text \<open>
  The payload command
  \<^verbatim>\<open>bytes(f"AT+INVDATA={int(len(modbus_frame_str) / 2)},{modbus_frame_str}\n", "ascii")\<close>.
\<close>

definition at_invdata :: "byte list \<Rightarrow> byte list" where
  "at_invdata req_frame =
     (let modbus_frame_str = hex_bytes req_frame
      in ascii (''AT+INVDATA='' @ dec_of_nat (length modbus_frame_str div 2) @ '',''
                @ modbus_frame_str @ [CHR 0x0A]))"

text \<open>
  The \<^verbatim>\<open>try\<close> block of \<^verbatim>\<open>send_request\<close> in two parts: first everything up to and
  including the receipt of the AT response, then the interpretation of the response.
  The block ends by raising, by one of the two \<^verbatim>\<open>return None\<close> statements, or by
  running to its end; the local variable \<^verbatim>\<open>modbus_response\<close> is returned alongside,
  with the value it has at that moment.
\<close>

definition request_phase :: "network \<Rightarrow> byte list \<Rightarrow> session \<Rightarrow> (exn + byte list option) \<times> session" where
  "request_phase net req_frame st =
     (case authenticate net st of
        (Inl e, st1) \<Rightarrow> (Inl e, st1)
      | (Inr _, st1) \<Rightarrow>
          (case send_at_command net (ascii ''+ok'') st1 of
             (Inl e, st2) \<Rightarrow> (Inl e, st2)
           | (Inr _, st2) \<Rightarrow>
               (case send_at_command net (at_invdata req_frame) st2 of
                  (Inl e, st3) \<Rightarrow> (Inl e, st3)
                | (Inr _, st3) \<Rightarrow> receive_at_response net st3)))"

datatype block_exit = Raised exn | Returned_None | Completed

definition response_phase ::
    "network \<Rightarrow> byte list option \<Rightarrow> session \<Rightarrow> block_exit \<times> byte list option \<times> session" where
  "response_phase net at_response st =
     (case at_response of
        None \<Rightarrow> (Returned_None, None, st)
      | Some r \<Rightarrow>
          if r = [] \<or> startswith r (ascii ''+ok=no data'') then (Returned_None, None, st)
          else if startswith r (ascii ''+ERR='') then (Returned_None, None, st)
          else
            (case (if startswith r (ascii ''+ok='')
                   then (case extract_modbus_respose r of
                           Inl e \<Rightarrow> Inl e
                         | Inr modbus_response \<Rightarrow> Inr (Some modbus_response))
                   else Inr None) of
               Inl e \<Rightarrow> (Raised e, None, st)
             | Inr modbus_response \<Rightarrow>
                 (case deauthenticate net st of
                    (Inl e, st1) \<Rightarrow> (Raised e, modbus_response, st1)
                  | (Inr _, st1) \<Rightarrow> (Completed, modbus_response, st1))))"

definition session_body ::
    "network \<Rightarrow> byte list \<Rightarrow> session \<Rightarrow> block_exit \<times> byte list option \<times> session" where
  "session_body net req_frame st =
     (case request_phase net req_frame st of
        (Inl e, st1) \<Rightarrow> (Raised e, None, st1)
      | (Inr at_response, st1) \<Rightarrow> response_phase net at_response st1)"

text \<open>
  \<^verbatim>\<open>send_request\<close>. The result is \<open>Inl\<close> when an exception leaves the function. Every
  constructor of \<open>exn\<close> is a subclass of \<^verbatim>\<open>Exception\<close>, so the handler
  \<^verbatim>\<open>except Exception\<close> catches whatever the block raises; it only logs, and control
  reaches \<^verbatim>\<open>return modbus_response\<close>. The \<^verbatim>\<open>finally\<close> clause closes the socket on
  every way out of the block.
\<close>

definition send_request :: "network \<Rightarrow> byte list \<Rightarrow> session \<Rightarrow> (exn + byte list option) \<times> session" where
  "send_request net req_frame st =
     (case create_socket net st of
        (False, st1) \<Rightarrow> (Inr None, st1)
      | (True, st1) \<Rightarrow>
          (case session_body net req_frame st1 of
             (Returned_None, modbus_response, st2) \<Rightarrow> (Inr None, st2\<lparr>socket_closed := True\<rparr>)
           | (Raised e, modbus_response, st2) \<Rightarrow> (Inr modbus_response, st2\<lparr>socket_closed := True\<rparr>)
           | (Completed, modbus_response, st2) \<Rightarrow> (Inr modbus_response, st2\<lparr>socket_closed := True\<rparr>)))"

definition read_holding_registers ::
    "network \<Rightarrow> int \<Rightarrow> int \<Rightarrow> session \<Rightarrow> (exn + register_map option) \<times> session" where
  "read_holding_registers net first_reg last_reg st =
     (case request_with_crc first_reg last_reg of
        Inl e \<Rightarrow> (Inl e, st)
      | Inr request \<Rightarrow>
          (case send_request net request st of
             (Inl e, st1) \<Rightarrow> (Inl e, st1)
           | (Inr None, st1) \<Rightarrow> (Inr None, st1)
           | (Inr (Some modbus_resp_frame), st1) \<Rightarrow>
               (case parse_modbus_read_holding_registers_response modbus_resp_frame first_reg last_reg of
                  Inl e \<Rightarrow> (Inl e, st1)
                | Inr registers \<Rightarrow> (Inr (Some registers), st1))))"

text \<open>
  A network where every call succeeds: the authentication reply arrives at once and
  the second \<^verbatim>\<open>recv\<close> returns \<open>response\<close>. \<open>failing_send k\<close> makes the \<open>k\<close>-th
  \<^verbatim>\<open>sendto\<close> raise \<open>OSError\<close>. Both are used for the concrete sessions below.
\<close>

definition answering :: "byte list \<Rightarrow> network" where
  "answering response =
     \<lparr>socket_opens = True,
      sendto_result = (\<lambda>k. Send_ok),
      recv_result = (\<lambda>k. if k = 0 then Recv_data (ascii ''+ok'') else Recv_data response)\<rparr>"

definition failing_send :: "nat \<Rightarrow> network \<Rightarrow> network" where
  "failing_send k net =
     net\<lparr>sendto_result := (\<lambda>j. if j = k then Send_raises OSError else sendto_result net j)\<rparr>"

definition fresh :: session where
  "fresh = \<lparr>reachable = True, sent = [], recv_calls = 0, socket_closed = False\<rparr>"

section \<open>Facts about the Python primitives\<close>

lemma and_ffff: "(x::int) AND 0xffff = x mod 65536"
proof -
  have m: "x AND mask 16 = x mod 2 ^ 16"
    by (simp add: take_bit_eq_mask [symmetric] take_bit_eq_mod)
  have "(mask 16::int) = 0xffff" by (simp add: mask_eq_exp_minus_1)
  with m show ?thesis by simp
qed

lemma and_ffffffff: "(x::int) AND 0xffffffff = x mod 4294967296"
proof -
  have m: "x AND mask 32 = x mod 2 ^ 32"
    by (simp add: take_bit_eq_mask [symmetric] take_bit_eq_mod)
  have "(mask 32::int) = 0xffffffff" by (simp add: mask_eq_exp_minus_1)
  with m show ?thesis by simp
qed

section \<open>One changed byte changes the CRC\<close>

lemma bit15_drop: "\<not> bit (drop_bit 1 (c :: 16 word)) 15"
  using bit_imp_le_length [of c 16] by (auto simp add: bit_drop_bit_eq)

lemma push_drop_even: "\<not> bit c 0 \<Longrightarrow> push_bit 1 (drop_bit 1 c) = c" for c :: "16 word"
proof (rule bit_word_eqI)
  fix n assume a: "\<not> bit c 0" "n < LENGTH(16)"
  show "bit (push_bit 1 (drop_bit 1 c)) n = bit c n"
  proof (cases n)
    case 0
    then show ?thesis using a by (simp only: bit_push_bit_iff) simp
  next
    case (Suc m)
    then show ?thesis using a by (simp only: bit_push_bit_iff bit_drop_bit_eq) simp
  qed
qed

lemma push_drop_odd: "bit c 0 \<Longrightarrow> push_bit 1 (drop_bit 1 c) OR 1 = c" for c :: "16 word"
proof (rule bit_word_eqI)
  fix n assume a: "bit c 0" "n < LENGTH(16)"
  show "bit (push_bit 1 (drop_bit 1 c) OR 1) n = bit c n"
  proof (cases n)
    case 0
    then show ?thesis using a by (simp only: bit_or_iff bit_push_bit_iff bit_1_iff) simp
  next
    case (Suc m)
    then show ?thesis using a by (simp only: bit_or_iff bit_push_bit_iff bit_drop_bit_eq bit_1_iff) simp
  qed
qed


lemma bit15_A001: "bit (0xA001 :: 16 word) 15"
  by simp

lemma crc16_unshift_shift: "crc16_unshift (crc16_shift c) = c"
proof (cases "bit c 0")
  case True
  have "bit (drop_bit 1 c XOR 0xA001) 15"
    using bit15_A001 bit15_drop [of c] by (simp only: bit_xor_iff) simp
  moreover have "(drop_bit 1 c XOR 0xA001) XOR 0xA001 = drop_bit 1 c"
    by (simp add: xor.assoc)
  ultimately show ?thesis
    using True by (simp only: crc16_unshift_def crc16_shift_def if_True push_drop_odd)
next
  case False
  then have "crc16_shift c = drop_bit 1 c"
    by (simp only: crc16_shift_def if_False)
  moreover have "crc16_unshift (drop_bit 1 c) = push_bit 1 (drop_bit 1 c)"
    using bit15_drop [of c] by (simp only: crc16_unshift_def if_False)
  ultimately show ?thesis
    using push_drop_even [OF False] by (simp only:)
qed

lemma crc16_shift_inj: "crc16_shift c = crc16_shift d \<Longrightarrow> c = d"
  by (metis crc16_unshift_shift)

lemma crc16_shift_pow_inj: "(crc16_shift ^^ n) c = (crc16_shift ^^ n) d \<Longrightarrow> c = d"
  by (induction n) (auto dest: crc16_shift_inj)

lemma crc16_byte_inj_state: "crc16_byte c b = crc16_byte d b \<Longrightarrow> c = d"
proof -
  assume "crc16_byte c b = crc16_byte d b"
  then have "c XOR ucast b = d XOR ucast b"
    unfolding crc16_byte_def by (rule crc16_shift_pow_inj)
  then have "(c XOR ucast b) XOR ucast b = (d XOR ucast b) XOR ucast b" by simp
  then show "c = d" by (simp add: xor.assoc)
qed

lemma ucast_byte_inj: "(ucast (b :: byte) :: 16 word) = ucast b' \<Longrightarrow> b = b'"
proof -
  assume a: "(ucast b :: 16 word) = ucast b'"
  have up: "is_up (ucast :: byte \<Rightarrow> 16 word)" by (simp add: is_up)
  have "(ucast (ucast b :: 16 word) :: byte) = ucast (ucast b' :: 16 word)"
    using a by (simp only:)
  then show "b = b'" by (simp only: ucast_up_ucast_id [OF up])
qed

lemma crc16_byte_inj_byte: "crc16_byte c b = crc16_byte c b' \<Longrightarrow> b = b'"
proof -
  assume "crc16_byte c b = crc16_byte c b'"
  then have "c XOR ucast b = c XOR ucast b'"
    unfolding crc16_byte_def by (rule crc16_shift_pow_inj)
  then have "c XOR (c XOR ucast b) = c XOR (c XOR ucast b')" by simp
  then have "(ucast b :: 16 word) = ucast b'" by (simp add: xor.assoc [symmetric])
  then show "b = b'" by (rule ucast_byte_inj)
qed

lemma foldl_crc16_inj: "foldl crc16_byte c xs = foldl crc16_byte d xs \<Longrightarrow> c = d"
  by (induction xs arbitrary: c d) (auto dest: crc16_byte_inj_state)

lemma crc16_modbus_single_byte:
  assumes "b \<noteq> b'"
  shows "crc16_modbus (xs @ b # ys) \<noteq> crc16_modbus (xs @ b' # ys)"
proof
  assume "crc16_modbus (xs @ b # ys) = crc16_modbus (xs @ b' # ys)"
  then have "foldl crc16_byte (crc16_byte (foldl crc16_byte 0xFFFF xs) b) ys =
             foldl crc16_byte (crc16_byte (foldl crc16_byte 0xFFFF xs) b') ys"
    by (simp add: crc16_modbus_def)
  then have "crc16_byte (foldl crc16_byte 0xFFFF xs) b = crc16_byte (foldl crc16_byte 0xFFFF xs) b'"
    by (rule foldl_crc16_inj)
  then have "b = b'" by (rule crc16_byte_inj_byte)
  with assms show False by simp
qed

lemma libscrc_modbus_single_byte:
  "b \<noteq> b' \<Longrightarrow> libscrc_modbus (xs @ b # ys) \<noteq> libscrc_modbus (xs @ b' # ys)"
  using crc16_modbus_single_byte [of b b' xs ys] by (simp add: libscrc_modbus_def word_uint_eq_iff)

section \<open>Register decoder\<close>

lemma sint16_of_u16:
  assumes "0 \<le> u" "u < 65536"
  shows "sint (word_of_int u :: 16 word) = (if u > 32767 then u - 65536 else u)"
proof -
  have s: "sint (word_of_int u :: 16 word) = (u + 32768) mod 65536 - 32768"
    by (simp add: int_word_sint)
  show ?thesis
  proof (cases "u > 32767")
    case True
    have "u + 32768 = (u - 32768) + 65536" by simp
    then have "(u + 32768) mod 65536 = (u - 32768) mod 65536"
      by (simp only: mod_add_self2)
    also have "\<dots> = u - 32768"
      using True assms by (simp add: mod_pos_pos_trivial)
    finally show ?thesis using s True by simp
  next
    case False
    then have "(u + 32768) mod 65536 = u + 32768"
      using assms by (simp add: mod_pos_pos_trivial)
    then show ?thesis using s False by simp
  qed
qed

lemma sint32_of_u32:
  assumes "0 \<le> u" "u < 4294967296"
  shows "sint (word_of_int u :: 32 word) = (if u > 2147483647 then u - 4294967296 else u)"
proof -
  have s: "sint (word_of_int u :: 32 word) = (u + 2147483648) mod 4294967296 - 2147483648"
    by (simp add: int_word_sint)
  show ?thesis
  proof (cases "u > 2147483647")
    case True
    have "u + 2147483648 = (u - 2147483648) + 4294967296" by simp
    then have "(u + 2147483648) mod 4294967296 = (u - 2147483648) mod 4294967296"
      by (simp only: mod_add_self2)
    also have "\<dots> = u - 2147483648"
      using True assms by (simp add: mod_pos_pos_trivial)
    finally show ?thesis using s True by simp
  next
    case False
    then have "(u + 2147483648) mod 4294967296 = u + 2147483648"
      using assms by (simp add: mod_pos_pos_trivial)
    then show ?thesis using s False by simp
  qed
qed

lemma uint_byte_bounds: "0 \<le> uint (b::byte) \<and> uint b < 256"
  using uint_lt2p [of b] by simp

lemma from_bytes_big_pair: "from_bytes_big [hi, lo] = uint hi * 256 + uint lo"
  by (simp add: from_bytes_big_def)

lemma from_bytes_big_pair_range:
  "0 \<le> from_bytes_big [hi, lo] \<and> from_bytes_big [hi, lo] < 65536"
  using uint_byte_bounds [of hi] uint_byte_bounds [of lo]
  by (simp add: from_bytes_big_pair)

lemma read_unit16_pair:
  "response address = Some [hi, lo] \<Longrightarrow>
   read_unit16 response address = Inr (uint hi * 256 + uint lo)"
  using from_bytes_big_pair_range [of hi lo]
  by (simp add: read_unit16_def and_ffff from_bytes_big_pair)

lemma read_unit32_pair:
  "response address = Some [hi, lo] \<Longrightarrow>
   read_unit32 response address = Inr (uint hi * 256 + uint lo)"
  using from_bytes_big_pair_range [of hi lo]
  by (simp add: read_unit32_def and_ffffffff from_bytes_big_pair)

text \<open>
  On a map of 2-byte entries \<open>read_unit32\<close> reads the one register at the address
  and nothing else: it returns what \<open>read_unit16\<close> returns, whatever the next
  register holds.
\<close>

lemma read_unit32_is_read_unit16:
  "response address = Some [hi, lo] \<Longrightarrow>
   read_unit32 response address = read_unit16 response address"
  by (simp add: read_unit32_pair read_unit16_pair)

text \<open>
  Claim C1. The unsigned 32-bit decoder is claimed to combine the registers at
  \<open>addr\<close> and \<open>addr + 1\<close>, high word first. With register 63 holding \<open>0x0001\<close> and
  register 64 holding \<open>0x0002\<close> the combined value is 65538, but \<open>read_unit32\<close>
  returns 1, the value of register 63 alone.
\<close>

theorem read_unit32_single_register:
  "read_unit16 [63 \<mapsto> [0x00, 0x01], 64 \<mapsto> [0x00, 0x02]] 63 = Inr 1
   \<and> read_unit16 [63 \<mapsto> [0x00, 0x01], 64 \<mapsto> [0x00, 0x02]] 64 = Inr 2
   \<and> read_unit32 [63 \<mapsto> [0x00, 0x01], 64 \<mapsto> [0x00, 0x02]] 63 = Inr 1
   \<and> (1 * 65536 + 2) mod 2 ^ 32 = (65538 :: int)"
  by (simp add: read_unit16_def read_unit32_def from_bytes_big_def)

text \<open>
  Claim C8. For a register entry at \<open>address\<close>, \<open>read_int16\<close> returns the unsigned
  16-bit value \<open>u\<close> minus 65536 exactly when \<open>u\<close> exceeds 32767, which is the two's
  complement reading of the 16-bit word; \<open>read_int32\<close> returns the value \<open>w\<close> of
  \<open>read_unit32\<close> minus 4294967296 exactly when \<open>w\<close> exceeds 2147483647, the two's
  complement reading of the 32-bit word.
\<close>

theorem read_int_twos_complement:
  assumes "response address = Some bs"
  shows "\<exists>u w. read_unit16 response address = Inr u
           \<and> read_int16 response address = Inr (if u > 32767 then u - 65536 else u)
           \<and> read_int16 response address = Inr (sint (word_of_int u :: 16 word))
           \<and> read_unit32 response address = Inr w
           \<and> read_int32 response address = Inr (if w > 2147483647 then w - 4294967296 else w)
           \<and> read_int32 response address = Inr (sint (word_of_int w :: 32 word))"
proof -
  let ?u = "from_bytes_big bs mod 65536"
  let ?w = "from_bytes_big bs mod 4294967296"
  have ru: "0 \<le> ?u" "?u < 65536" by simp_all
  have rw: "0 \<le> ?w" "?w < 4294967296" by simp_all
  have u16: "read_unit16 response address = Inr ?u"
    using assms by (simp add: read_unit16_def and_ffff)
  have i16: "read_int16 response address = Inr (if ?u > 32767 then ?u - 65536 else ?u)"
    using assms by (simp add: read_int16_def and_ffff Let_def)
  have s16: "sint (word_of_int ?u :: 16 word) = (if ?u > 32767 then ?u - 65536 else ?u)"
    using ru by (rule sint16_of_u16)
  have u32: "read_unit32 response address = Inr ?w"
    using assms by (simp add: read_unit32_def and_ffffffff)
  have i32: "read_int32 response address = Inr (if ?w > 2147483647 then ?w - 4294967296 else ?w)"
    using u32 by (simp add: read_int32_def)
  have s32: "sint (word_of_int ?w :: 32 word) = (if ?w > 2147483647 then ?w - 4294967296 else ?w)"
    using rw by (rule sint32_of_u32)
  show ?thesis
    by (rule exI [of _ ?u], rule exI [of _ ?w])
       (simp only: u16 i16 s16 u32 i32 s32 simp_thms)
qed

theorem read_int_twos_complement_witness:
  "read_int16 [60 \<mapsto> [0xFF, 0xFF]] 60 = Inr (- 1)
   \<and> read_int16 [60 \<mapsto> [0x80, 0x00]] 60 = Inr (- 32768)
   \<and> read_int16 [60 \<mapsto> [0x7F, 0xFF]] 60 = Inr 32767
   \<and> read_int32 [86 \<mapsto> [0xFF, 0xFF, 0xFF, 0xFE]] 86 = Inr (- 2)"
  using read_int_twos_complement [of "[60 \<mapsto> [0xFF, 0xFF]]" 60 "[0xFF, 0xFF]"]
    read_int_twos_complement [of "[60 \<mapsto> [0x80, 0x00]]" 60 "[0x80, 0x00]"]
    read_int_twos_complement [of "[60 \<mapsto> [0x7F, 0xFF]]" 60 "[0x7F, 0xFF]"]
    read_int_twos_complement [of "[86 \<mapsto> [0xFF, 0xFF, 0xFF, 0xFE]]" 86 "[0xFF, 0xFF, 0xFF, 0xFE]"]
  by (simp add: read_unit16_def read_unit32_def from_bytes_big_def)

section \<open>Hexadecimal formatting and parsing\<close>

lemma nat_lt16_cases:
  "d < 16 \<Longrightarrow> d = 0 \<or> d = 1 \<or> d = 2 \<or> d = 3 \<or> d = 4 \<or> d = 5 \<or> d = 6 \<or> d = 7 \<or>
     d = 8 \<or> d = 9 \<or> d = 10 \<or> d = 11 \<or> d = 12 \<or> d = 13 \<or> d = 14 \<or> d = (15::nat)"
  by arith

lemma hex_val_hex_digit: "d < 16 \<Longrightarrow> hex_val (hex_digit d) = Some d"
  by (drule nat_lt16_cases) (auto simp add: hex_val_def hex_digit_def)

lemma hex_digit_not_space: "d < 16 \<Longrightarrow> \<not> py_isspace (hex_digit d)"
  by (drule nat_lt16_cases) (auto simp add: py_isspace_def hex_digit_def)

lemma fromhex_two_digits:
  "a < 16 \<Longrightarrow> b < 16 \<Longrightarrow>
   fromhex (hex_digit a # hex_digit b # cs) =
     (case fromhex cs of Inl e \<Rightarrow> Inl e | Inr bs \<Rightarrow> Inr (of_nat (a * 16 + b) # bs))"
  by (simp add: hex_val_hex_digit hex_digit_not_space)

lemma zero_pad_4:
  "zero_pad 4 [a] = [CHR ''0'', CHR ''0'', CHR ''0'', a]"
  "zero_pad 4 [a, b] = [CHR ''0'', CHR ''0'', a, b]"
  "zero_pad 4 [a, b, c] = [CHR ''0'', a, b, c]"
  "zero_pad 4 [a, b, c, d] = [a, b, c, d]"
  by (simp_all add: zero_pad_def numeral_3_eq_3 numeral_2_eq_2)

lemma hex_digit_0: "hex_digit 0 = CHR ''0''"
  by (simp add: hex_digit_def)

lemma zero_pad_hex_of_nat:
  assumes "n < 65536"
  shows "zero_pad 4 (hex_of_nat n) =
    [hex_digit (n div 4096), hex_digit (n div 256 mod 16), hex_digit (n div 16 mod 16), hex_digit (n mod 16)]"
proof -
  have d256: "n div 256 = n div 16 div 16" by (simp add: div_mult2_eq)
  have d4096: "n div 4096 = n div 16 div 16 div 16" by (simp add: div_mult2_eq)
  consider "n < 16" | "16 \<le> n" "n < 256" | "256 \<le> n" "n < 4096" | "4096 \<le> n"
    by linarith
  then show ?thesis
  proof cases
    case 1
    then have "hex_of_nat n = [hex_digit n]" by (subst hex_of_nat.simps) simp
    moreover have "n div 4096 = 0" "n div 256 = 0" "n div 16 = 0" "n mod 16 = n" using 1 by simp_all
    ultimately show ?thesis by (simp only: zero_pad_4 hex_digit_0 mod_0)
  next
    case 2
    then have a: "\<not> n < 16" "n div 16 < 16" by simp_all
    have "hex_of_nat n = hex_of_nat (n div 16) @ [hex_digit (n mod 16)]"
      using a by (subst hex_of_nat.simps) simp
    also have "hex_of_nat (n div 16) = [hex_digit (n div 16)]"
      using a by (subst hex_of_nat.simps) simp
    finally have h: "hex_of_nat n = [hex_digit (n div 16), hex_digit (n mod 16)]" by simp
    have "n div 4096 = 0" "n div 256 = 0" "n div 16 mod 16 = n div 16" using 2 a by simp_all
    with h show ?thesis by (simp only: zero_pad_4 hex_digit_0 mod_0)
  next
    case 3
    then have a: "\<not> n < 16" "\<not> n div 16 < 16" "n div 16 div 16 < 16" by simp_all
    have "hex_of_nat n = hex_of_nat (n div 16) @ [hex_digit (n mod 16)]"
      using a by (subst hex_of_nat.simps) simp
    also have "hex_of_nat (n div 16) = hex_of_nat (n div 16 div 16) @ [hex_digit (n div 16 mod 16)]"
      using a by (subst hex_of_nat.simps) simp
    also have "hex_of_nat (n div 16 div 16) = [hex_digit (n div 16 div 16)]"
      using a by (subst hex_of_nat.simps) simp
    finally have h: "hex_of_nat n =
        [hex_digit (n div 16 div 16), hex_digit (n div 16 mod 16), hex_digit (n mod 16)]" by simp
    have "n div 4096 = 0" "n div 256 mod 16 = n div 16 div 16" using 3 a by (simp_all add: d256)
    with h show ?thesis by (simp only: zero_pad_4 hex_digit_0)
  next
    case 4
    with assms have a: "\<not> n < 16" "\<not> n div 16 < 16" "\<not> n div 16 div 16 < 16"
        "n div 16 div 16 div 16 < 16"
      by simp_all
    have "hex_of_nat n = hex_of_nat (n div 16) @ [hex_digit (n mod 16)]"
      using a by (subst hex_of_nat.simps) simp
    also have "hex_of_nat (n div 16) = hex_of_nat (n div 16 div 16) @ [hex_digit (n div 16 mod 16)]"
      using a by (subst hex_of_nat.simps) simp
    also have "hex_of_nat (n div 16 div 16) =
        hex_of_nat (n div 16 div 16 div 16) @ [hex_digit (n div 16 div 16 mod 16)]"
      using a by (subst hex_of_nat.simps) simp
    also have "hex_of_nat (n div 16 div 16 div 16) = [hex_digit (n div 16 div 16 div 16)]"
      using a by (subst hex_of_nat.simps) simp
    finally have h: "hex_of_nat n =
        [hex_digit (n div 16 div 16 div 16), hex_digit (n div 16 div 16 mod 16),
         hex_digit (n div 16 mod 16), hex_digit (n mod 16)]" by simp
    show ?thesis by (simp only: h zero_pad_4 d256 d4096)
  qed
qed

lemma format_04x_u16:
  assumes "0 \<le> n" "n < 65536"
  shows "format_04x n =
    [hex_digit (nat n div 4096), hex_digit (nat n div 256 mod 16),
     hex_digit (nat n div 16 mod 16), hex_digit (nat n mod 16)]"
  using assms by (simp add: format_04x_def zero_pad_hex_of_nat)

lemma hex_pair_value:
  "(n div 4096) * 16 + n div 256 mod 16 = (n div 256 :: nat)"
  "(n div 16 mod 16) * 16 + n mod 16 = (n mod 256 :: nat)"
proof -
  have "n div 4096 = n div 256 div 16" by (simp add: div_mult2_eq)
  then show "(n div 4096) * 16 + n div 256 mod 16 = n div 256" by simp
  have "n mod (16 * 16) = 16 * (n div 16 mod 16) + n mod 16" by (rule mod_mult2_eq)
  then show "(n div 16 mod 16) * 16 + n mod 16 = n mod 256" by simp
qed


section \<open>Request frames\<close>

text \<open>Unfolding the eight shift steps of one byte, for evaluating the CRC of a literal frame.\<close>

lemma funpow8: "(f ^^ 8) x = f (f (f (f (f (f (f (f x)))))))"
  by (simp add: eval_nat_numeral)

lemmas crc_eval = libscrc_modbus_def crc16_modbus_def crc16_byte_def funpow8 crc16_shift_def

lemma u16_be_of_nat:
  assumes "0 \<le> n"
  shows "[of_nat (nat n div 256), of_nat (nat n mod 256)] = u16_be n"
proof -
  have "nat n div 256 = nat (n div 256)" "nat n mod 256 = nat (n mod 256)"
    using assms by (simp_all add: nat_div_distrib nat_mod_distrib)
  then show ?thesis using assms by (simp add: u16_be_def)
qed

lemma fromhex_format_04x_append:
  assumes "0 \<le> n" "n < 65536"
  shows "fromhex (format_04x n @ cs) =
     (case fromhex cs of Inl e \<Rightarrow> Inl e | Inr bs \<Rightarrow> Inr (u16_be n @ bs))"
proof -
  let ?a = "nat n div 4096" and ?b = "nat n div 256 mod 16"
  let ?c = "nat n div 16 mod 16" and ?d = "nat n mod 16"
  have lt: "?a < 16" "?b < 16" "?c < 16" "?d < 16"
    using assms by simp_all
  have f: "format_04x n @ cs = hex_digit ?a # hex_digit ?b # hex_digit ?c # hex_digit ?d # cs"
    using assms by (simp add: format_04x_u16)
  have u: "u16_be n = [of_nat (?a * 16 + ?b), of_nat (?c * 16 + ?d)]"
    using assms(1) by (simp only: hex_pair_value u16_be_of_nat)
  show ?thesis
  proof (cases "fromhex cs")
    case (Inl e)
    then show ?thesis
      by (simp only: f fromhex_two_digits [OF lt(1) lt(2)] fromhex_two_digits [OF lt(3) lt(4)] sum.case)
  next
    case (Inr bs)
    then show ?thesis
      by (simp only: f u fromhex_two_digits [OF lt(1) lt(2)] fromhex_two_digits [OF lt(3) lt(4)]
          sum.case append.simps)
  qed
qed

lemma fromhex_format_04x:
  assumes "0 \<le> n" "n < 65536"
  shows "fromhex (format_04x n) = Inr (u16_be n)"
  using fromhex_format_04x_append [OF assms, of "[]"] by simp

lemma libscrc_modbus_range: "0 \<le> libscrc_modbus bs \<and> libscrc_modbus bs < 65536"
  using uint_lt2p [of "crc16_modbus bs"] by (simp add: libscrc_modbus_def)

lemma build_request_frame:
  assumes "0 \<le> first_reg" "first_reg \<le> last_reg" "last_reg \<le> 0xFFFF"
    and "last_reg - first_reg + 1 \<le> 0xFFFF"
  shows "build_modbus_read_holding_registers_request_frame first_reg last_reg =
     Inr (0x01 # 0x03 # u16_be first_reg @ u16_be (last_reg - first_reg + 1))"
proof -
  have a: "0 \<le> first_reg" "first_reg < 65536" using assms by simp_all
  have b: "0 \<le> last_reg - first_reg + 1" "last_reg - first_reg + 1 < 65536" using assms by simp_all
  have h: "fromhex (CHR ''0'' # CHR ''1'' # CHR ''0'' # CHR ''3'' # cs) =
      (case fromhex cs of Inl e \<Rightarrow> Inl e | Inr bs \<Rightarrow> Inr (0x01 # 0x03 # bs))" for cs
    by (simp add: hex_val_def py_isspace_def split: sum.split)
  have "build_modbus_read_holding_registers_request_frame first_reg last_reg =
      fromhex (CHR ''0'' # CHR ''1'' # CHR ''0'' # CHR ''3'' #
        (format_04x first_reg @ format_04x (last_reg - first_reg + 1)))"
    by (simp add: build_modbus_read_holding_registers_request_frame_def Let_def del: fromhex.simps)
  also have "\<dots> = Inr (0x01 # 0x03 # u16_be first_reg @ u16_be (last_reg - first_reg + 1))"
    by (simp only: h fromhex_format_04x_append [OF a] fromhex_format_04x [OF b] sum.case)
  finally show ?thesis .
qed

text \<open>
  Claim C3, as amended. For \<open>0 \<le> first_reg \<le> last_reg \<le> 0xFFFF\<close> with a register
  count \<open>last_reg - first_reg + 1\<close> of at most \<open>0xFFFF\<close>, the request frame is the
  unit address \<open>0x01\<close>, the function code \<open>0x03\<close>, \<open>first_reg\<close> as a big-endian
  16-bit field and the register count as a big-endian 16-bit field; the request that
  \<open>read_holding_registers\<close> sends is this frame followed by its CRC-16/MODBUS,
  low byte first.
\<close>

theorem request_with_crc_layout:
  assumes "0 \<le> first_reg" "first_reg \<le> last_reg" "last_reg \<le> 0xFFFF"
    and "last_reg - first_reg + 1 \<le> 0xFFFF"
  shows "\<exists>frame.
     frame = 0x01 # 0x03 # u16_be first_reg @ u16_be (last_reg - first_reg + 1)
   \<and> build_modbus_read_holding_registers_request_frame first_reg last_reg = Inr frame
   \<and> request_with_crc first_reg last_reg = Inr (frame @ u16_le (libscrc_modbus frame))"
proof -
  let ?frame = "0x01 # 0x03 # u16_be first_reg @ u16_be (last_reg - first_reg + 1)"
  have b: "build_modbus_read_holding_registers_request_frame first_reg last_reg = Inr ?frame"
    using assms by (rule build_request_frame)
  have c: "fromhex (format_04x (libscrc_modbus ?frame)) = Inr (u16_be (libscrc_modbus ?frame))"
    using libscrc_modbus_range [of ?frame] by (intro fromhex_format_04x) simp_all
  have "request_with_crc first_reg last_reg = Inr (?frame @ rev (u16_be (libscrc_modbus ?frame)))"
    by (simp only: request_with_crc_def b c sum.case)
  then show ?thesis using b by (simp add: u16_be_def u16_le_def)
qed

theorem request_with_crc_layout_witness:
  "request_with_crc 60 112 = Inr [0x01, 0x03, 0x00, 0x3C, 0x00, 0x35, 0x45, 0xD1]"
  using request_with_crc_layout [of 60 112]
  by (simp add: u16_be_def u16_le_def crc_eval)

text \<open>
  The layout as the specification words it (function code first, every range up to
  \<open>0xFFFF\<close>) is not what the code sends: the request for register 0 alone has eight
  bytes and starts with the unit address \<open>0x01\<close>, where the specification's layout
  has seven; and for the range \<open>0..0xFFFF\<close> the count 65536 is formatted with five
  hexadecimal digits, the hex string has odd length and \<open>fromhex\<close> raises.
\<close>

theorem request_with_crc_counterexample:
  "request_with_crc 0 0 = Inr [0x01, 0x03, 0x00, 0x00, 0x00, 0x01, 0x84, 0x0A]
   \<and> request_with_crc 0 0 \<noteq> Inr (spec_request_with_crc 0 0)
   \<and> request_with_crc 0 0xFFFF = Inl (ValueError ''fromhex'')"
proof -
  have z: "format_04x 0 = ''0000''" "format_04x 1 = ''0001''"
    using format_04x_u16 [of 0] format_04x_u16 [of 1] by (simp_all add: hex_digit_def)
  have big: "format_04x 65536 = ''10000''"
    by (simp add: format_04x_def zero_pad_def hex_of_nat.simps [of 65536] hex_of_nat.simps [of 4096]
        hex_of_nat.simps [of 256] hex_of_nat.simps [of 16] hex_of_nat.simps [of 1] hex_of_nat.simps [of "Suc 0"] hex_digit_def)
  have b: "build_modbus_read_holding_registers_request_frame 0 0 = Inr [0x01, 0x03, 0x00, 0x00, 0x00, 0x01]"
    by (simp add: build_modbus_read_holding_registers_request_frame_def z hex_val_def py_isspace_def)
  have c: "libscrc_modbus [0x01, 0x03, 0x00, 0x00, 0x00, 0x01] = 0x0A84"
    by (simp add: crc_eval)
  have f: "format_04x 0x0A84 = ''0a84''"
    using format_04x_u16 [of "0x0A84"] by (simp add: hex_digit_def)
  have r: "request_with_crc 0 0 = Inr [0x01, 0x03, 0x00, 0x00, 0x00, 0x01, 0x84, 0x0A]"
    by (simp add: request_with_crc_def b c f hex_val_def py_isspace_def)
  have s: "length (spec_request_with_crc 0 0) = 7"
    by (simp add: spec_request_with_crc_def Let_def u16_be_def u16_le_def)
  have n: "request_with_crc 0 0 \<noteq> Inr (spec_request_with_crc 0 0)"
  proof
    assume "request_with_crc 0 0 = Inr (spec_request_with_crc 0 0)"
    with r have "spec_request_with_crc 0 0 = [0x01, 0x03, 0x00, 0x00, 0x00, 0x01, 0x84, 0x0A]"
      by simp
    then have "length (spec_request_with_crc 0 0) = 8" by simp
    with s show False by simp
  qed
  have e: "request_with_crc 0 0xFFFF = Inl (ValueError ''fromhex'')"
    by (simp add: request_with_crc_def build_modbus_read_holding_registers_request_frame_def
        z big hex_val_def py_isspace_def)
  show ?thesis using r n e by simp
qed

section \<open>Response frames\<close>

lemma parse_loop_lookup:
  "parse_loop frame first_reg reg_count a registers k =
     (if a + first_reg \<le> k \<and> k < reg_count + first_reg
      then Some (py_slice frame (3 + (k - first_reg) * 2) (3 + (k - first_reg) * 2 + 2))
      else registers k)"
proof (induction frame first_reg reg_count a registers rule: parse_loop.induct)
  case (1 frame first_reg reg_count a registers)
  let ?regs' = "registers(a + first_reg \<mapsto> py_slice frame (3 + a * 2) (3 + a * 2 + 2))"
  show ?case
  proof (cases "a < reg_count")
    case True
    have step: "parse_loop frame first_reg reg_count a registers =
        parse_loop frame first_reg reg_count (a + 1) ?regs'"
      using True by (subst parse_loop.simps) (simp only: if_True Let_def)
    have IH: "parse_loop frame first_reg reg_count (a + 1) ?regs' k =
       (if a + 1 + first_reg \<le> k \<and> k < reg_count + first_reg
        then Some (py_slice frame (3 + (k - first_reg) * 2) (3 + (k - first_reg) * 2 + 2))
        else ?regs' k)"
      by (rule "1.IH" [OF True refl refl])
    have both: "parse_loop frame first_reg reg_count a registers k =
       (if a + 1 + first_reg \<le> k \<and> k < reg_count + first_reg
        then Some (py_slice frame (3 + (k - first_reg) * 2) (3 + (k - first_reg) * 2 + 2))
        else ?regs' k)"
      by (simp only: step IH)
    show ?thesis
    proof (cases "k = a + first_reg")
      case eq: True
      then have "k - first_reg = a" by simp
      then show ?thesis using both True eq by simp
    next
      case False
      then have "(a + 1 + first_reg \<le> k) = (a + first_reg \<le> k)" by linarith
      then show ?thesis using both False by simp
    qed
  next
    case False
    then have "parse_loop frame first_reg reg_count a registers = registers"
      by (subst parse_loop.simps) (simp only: if_False)
    moreover have "\<not> (a + first_reg \<le> k \<and> k < reg_count + first_reg)"
      using False by linarith
    ultimately show ?thesis by (simp only: if_False)
  qed
qed

lemma py_slice_nonneg:
  assumes "0 \<le> i" "i \<le> j" "j \<le> int (length xs)"
  shows "py_slice xs i j = take (nat (j - i)) (drop (nat i) xs)"
proof -
  have "nat i \<le> length xs" "nat j \<le> length xs" using assms by linarith+
  moreover have "nat j - nat i = nat (j - i)" using assms by linarith
  ultimately show ?thesis
    using assms by (simp add: py_slice_def clamp_index_def Let_def min_def)
qed

lemma from_bytes_little_u16_le:
  assumes "0 \<le> n" "n < 65536"
  shows "from_bytes_little (u16_le n) = n"
proof -
  have a: "0 \<le> n mod 256" "n mod 256 < 256" "0 \<le> n div 256" "n div 256 < 256"
    using assms by simp_all
  have "uint (word_of_int (n mod 256) :: byte) = n mod 256"
    using a by (simp add: uint_word_of_int take_bit_eq_mod)
  moreover have "uint (word_of_int (n div 256) :: byte) = n div 256"
    using a by (simp add: uint_word_of_int take_bit_eq_mod)
  ultimately show ?thesis
    by (simp add: from_bytes_little_def from_bytes_big_def u16_le_def)
qed

text \<open>
  Claim C4. For \<open>first_reg \<le> last_reg\<close>, parsing a valid response frame returns a
  register map with exactly \<open>last_reg - first_reg + 1\<close> entries, keyed
  \<open>first_reg..last_reg\<close>, and the entry for address \<open>a\<close> is exactly the two bytes at
  frame offset \<open>3 + 2 * (a - first_reg)\<close>.
\<close>

theorem parse_valid_response:
  assumes "first_reg \<le> last_reg"
    and "valid_response_frame frame first_reg last_reg"
  shows "\<exists>registers.
      parse_modbus_read_holding_registers_response frame first_reg last_reg = Inr registers
    \<and> dom registers = {first_reg..last_reg}
    \<and> card (dom registers) = nat (last_reg - first_reg + 1)
    \<and> (\<forall>a\<in>{first_reg..last_reg}.
          registers a = Some (take 2 (drop (nat (3 + 2 * (a - first_reg))) frame))
        \<and> length (take 2 (drop (nat (3 + 2 * (a - first_reg))) frame)) = 2)"
proof -
  let ?n = "last_reg - first_reg + 1"
  let ?len = "3 + ?n * 2"
  let ?regs = "parse_loop frame first_reg ?n 0 Map.empty"
  have len: "int (length frame) = ?len + 2"
    and crc: "drop (nat ?len) frame = u16_le (libscrc_modbus (take (nat ?len) frame))"
    using assms(2) by (simp_all add: valid_response_frame_def Let_def)
  have s1: "py_slice frame ?len (?len + 2) = drop (nat ?len) frame"
    using assms(1) len by (simp add: py_slice_nonneg)
  have s2: "py_slice frame 0 ?len = take (nat ?len) frame"
    using assms(1) len by (simp add: py_slice_nonneg)
  have r: "0 \<le> libscrc_modbus (take (nat ?len) frame)" "libscrc_modbus (take (nat ?len) frame) < 65536"
    using libscrc_modbus_range by simp_all
  have ok: "from_bytes_little (py_slice frame ?len (?len + 2)) = libscrc_modbus (py_slice frame 0 ?len)"
    by (simp only: s1 s2 crc from_bytes_little_u16_le [OF r])
  have p: "parse_modbus_read_holding_registers_response frame first_reg last_reg = Inr ?regs"
    using len ok by (simp add: parse_modbus_read_holding_registers_response_def Let_def)
  have look: "?regs a = (if first_reg \<le> a \<and> a \<le> last_reg
      then Some (py_slice frame (3 + (a - first_reg) * 2) (3 + (a - first_reg) * 2 + 2)) else None)" for a
    by (simp add: parse_loop_lookup)
  have d: "dom ?regs = {first_reg..last_reg}"
    by (auto simp add: look dom_def)
  have e: "?regs a = Some (take 2 (drop (nat (3 + 2 * (a - first_reg))) frame))
      \<and> length (take 2 (drop (nat (3 + 2 * (a - first_reg))) frame)) = 2"
    if "a \<in> {first_reg..last_reg}" for a
  proof -
    have b: "0 \<le> 3 + (a - first_reg) * 2" "3 + (a - first_reg) * 2 + 2 \<le> int (length frame)"
      using that len by simp_all
    then have "py_slice frame (3 + (a - first_reg) * 2) (3 + (a - first_reg) * 2 + 2) =
        take 2 (drop (nat (3 + (a - first_reg) * 2)) frame)"
      by (simp add: py_slice_nonneg)
    moreover have "nat (3 + (a - first_reg) * 2) + 2 \<le> length frame"
      using b by linarith
    ultimately show ?thesis using that by (simp add: look mult.commute)
  qed
  show ?thesis
    using p d e by (intro exI [of _ ?regs]) simp
qed

lemma valid_response_crc_ok:
  assumes "first_reg \<le> last_reg" "valid_response_frame frame first_reg last_reg"
  shows "from_bytes_little (drop (nat (3 + (last_reg - first_reg + 1) * 2)) frame) =
         libscrc_modbus (take (nat (3 + (last_reg - first_reg + 1) * 2)) frame)"
proof -
  let ?len = "3 + (last_reg - first_reg + 1) * 2"
  have crc: "drop (nat ?len) frame = u16_le (libscrc_modbus (take (nat ?len) frame))"
    using assms(2) by (simp add: valid_response_frame_def Let_def)
  have r: "0 \<le> libscrc_modbus (take (nat ?len) frame)" "libscrc_modbus (take (nat ?len) frame) < 65536"
    using libscrc_modbus_range by simp_all
  show ?thesis by (simp only: crc from_bytes_little_u16_le [OF r])
qed

text \<open>
  Claim C5. For a valid response frame: every frame that is shorter by at least one
  byte (in particular every proper prefix) is rejected with the ``too short'' error,
  never the checksum error; and changing any single byte of the data region (the first
  \<open>3 + 2 * reg_count\<close> bytes), with the CRC bytes untouched, is rejected with the
  checksum error.
\<close>

theorem parse_damaged_response:
  assumes "first_reg \<le> last_reg"
    and "valid_response_frame frame first_reg last_reg"
  shows "(\<forall>frame'. length frame' < length frame \<longrightarrow>
            parse_modbus_read_holding_registers_response frame' first_reg last_reg
              = Inl (ValueError ''Modbus frame is too short''))
       \<and> (\<forall>n < length frame.
            parse_modbus_read_holding_registers_response (take n frame) first_reg last_reg
              = Inl (ValueError ''Modbus frame is too short''))
       \<and> (\<forall>i b. int i < 3 + (last_reg - first_reg + 1) * 2 \<and> b \<noteq> frame ! i \<longrightarrow>
            parse_modbus_read_holding_registers_response (frame[i := b]) first_reg last_reg
              = Inl (ValueError ''Modbus frame crc is not valid''))"
proof -
  let ?len = "3 + (last_reg - first_reg + 1) * 2"
  let ?n = "nat ?len"
  have len: "int (length frame) = ?len + 2"
    using assms(2) by (simp add: valid_response_frame_def Let_def)
  have short: "parse_modbus_read_holding_registers_response frame' first_reg last_reg
      = Inl (ValueError ''Modbus frame is too short'')" if "length frame' < length frame" for frame'
    using that len by (simp add: parse_modbus_read_holding_registers_response_def Let_def)
  have bad: "parse_modbus_read_holding_registers_response (frame[i := b]) first_reg last_reg
      = Inl (ValueError ''Modbus frame crc is not valid'')"
    if i: "int i < ?len" and b: "b \<noteq> frame ! i" for i b
  proof -
    let ?frame' = "frame[i := b]"
    have in': "i < ?n" "?n \<le> length frame" using i len assms(1) by linarith+
    have len': "int (length ?frame') = ?len + 2" using len by simp
    have s1: "py_slice ?frame' ?len (?len + 2) = drop ?n frame"
      using assms(1) len' in' by (simp add: py_slice_nonneg)
    have s2: "py_slice ?frame' 0 ?len = (take ?n frame)[i := b]"
      using assms(1) len' by (simp add: py_slice_nonneg take_update_swap)
    have il: "i < length (take ?n frame)" using in' by simp
    obtain xs ys where old: "take ?n frame = xs @ (frame ! i) # ys"
      and new: "(take ?n frame)[i := b] = xs @ b # ys"
    proof
      show "take ?n frame = take i (take ?n frame) @ (frame ! i) # drop (Suc i) (take ?n frame)"
        using id_take_nth_drop [OF il] in' by simp
      show "(take ?n frame)[i := b] = take i (take ?n frame) @ b # drop (Suc i) (take ?n frame)"
        using il by (rule upd_conv_take_nth_drop)
    qed
    have "frame ! i \<noteq> b" using b by simp
    then have "libscrc_modbus (xs @ (frame ! i) # ys) \<noteq> libscrc_modbus (xs @ b # ys)"
      by (rule libscrc_modbus_single_byte)
    then have ne: "libscrc_modbus (take ?n frame) \<noteq> libscrc_modbus ((take ?n frame)[i := b])"
      by (simp only: new, simp only: old)
    have "from_bytes_little (py_slice ?frame' ?len (?len + 2)) \<noteq> libscrc_modbus (py_slice ?frame' 0 ?len)"
      unfolding s1 s2 valid_response_crc_ok [OF assms] by (rule ne)
    then show ?thesis
      using len' by (simp add: parse_modbus_read_holding_registers_response_def Let_def)
  qed
  show ?thesis using short bad by simp
qed


theorem parse_valid_response_witness:
  "\<exists>registers.
      parse_modbus_read_holding_registers_response
        [0x01, 0x03, 0x04, 0x03, 0xE8, 0x00, 0x2A, 0xFB, 0x9C] 60 61 = Inr registers
    \<and> dom registers = {60..61}
    \<and> registers 60 = Some [0x03, 0xE8]
    \<and> registers 61 = Some [0x00, 0x2A]"
proof -
  have v: "valid_response_frame [0x01, 0x03, 0x04, 0x03, 0xE8, 0x00, 0x2A, 0xFB, 0x9C] 60 61"
    by (simp add: valid_response_frame_def u16_le_def crc_eval)
  have o: "(60::int) \<le> 61" by simp
  from parse_valid_response [OF o v] obtain registers where
    p: "parse_modbus_read_holding_registers_response
        [0x01, 0x03, 0x04, 0x03, 0xE8, 0x00, 0x2A, 0xFB, 0x9C] 60 61 = Inr registers"
    and d: "dom registers = {60..61}"
    and e: "\<forall>a\<in>{60..61}. registers a =
        Some (take 2 (drop (nat (3 + 2 * (a - 60))) [0x01, 0x03, 0x04, 0x03, 0xE8, 0x00, 0x2A, 0xFB, 0x9C]))
      \<and> length (take 2 (drop (nat (3 + 2 * (a - 60))) [0x01, 0x03, 0x04, 0x03, 0xE8, 0x00, 0x2A, 0xFB, 0x9C :: byte])) = 2"
    by blast
  have "registers 60 = Some [0x03, 0xE8]" using e [rule_format, of 60] by simp
  moreover have "registers 61 = Some [0x00, 0x2A]" using e [rule_format, of 61] by simp
  ultimately show ?thesis using p d by blast
qed

theorem parse_damaged_response_witness:
  "parse_modbus_read_holding_registers_response
      [0x01, 0x03, 0x04, 0x03, 0xE8, 0x00, 0x2A, 0xFB] 60 61
     = Inl (ValueError ''Modbus frame is too short'')
   \<and> parse_modbus_read_holding_registers_response
      [0x01, 0x03, 0x04, 0x03, 0xE9, 0x00, 0x2A, 0xFB, 0x9C] 60 61
     = Inl (ValueError ''Modbus frame crc is not valid'')"
proof -
  have v: "valid_response_frame [0x01, 0x03, 0x04, 0x03, 0xE8, 0x00, 0x2A, 0xFB, 0x9C] 60 61"
    by (simp add: valid_response_frame_def u16_le_def crc_eval)
  have o: "(60::int) \<le> 61" by simp
  note t = parse_damaged_response [OF o v]
  have "parse_modbus_read_holding_registers_response
      (take 8 [0x01, 0x03, 0x04, 0x03, 0xE8, 0x00, 0x2A, 0xFB, 0x9C]) 60 61
     = Inl (ValueError ''Modbus frame is too short'')"
    using t [THEN conjunct2, THEN conjunct1, rule_format, of 8] by simp
  moreover have "parse_modbus_read_holding_registers_response
      ([0x01, 0x03, 0x04, 0x03, 0xE8, 0x00, 0x2A, 0xFB, 0x9C][4 := 0xE9]) 60 61
     = Inl (ValueError ''Modbus frame crc is not valid'')"
    using t [THEN conjunct2, THEN conjunct2, rule_format, of 4 "0xE9"] by simp
  ultimately show ?thesis by simp
qed



end
